theory Spec2Isabelle
  imports Complex_Main
begin

section \<open>Pad foundation sizing: the embedding\<close>

text \<open>
  The program is \<^verbatim>\<open>pad_app_1_2.py\<close>. Its numbers are Python floats; they are
  modelled here as \<^typ>\<open>real\<close>, so the results about \<open>solve_pad\<close>, \<open>final_design\<close> and
  \<open>design_pad\<close> are about exact arithmetic and say nothing about the rounding of IEEE
  doubles. Where that rounding decides what the program returns, the solver is given a
  second time with the arithmetic of doubles (\<open>solve_pad_d\<close>), and the runs in question are
  evaluated there. What Python raises is a value of the model:
  a float division by zero raises \<^verbatim>\<open>ZeroDivisionError\<close>, \<^verbatim>\<open>math.sqrt\<close> of a negative
  number raises \<^verbatim>\<open>ValueError\<close>. A computation that never returns has the value
  \<open>None\<close>.
\<close>

datatype error = ZeroDivisionError | ValueError

subsection \<open>Constants (lines 131--139)\<close>

definition GAMMA_CONC :: real where
  "GAMMA_CONC = 24"

definition gamma_G :: real where
  "gamma_G = 1"

definition gamma_Q :: real where
  "gamma_Q = 1"

definition B_REFINE_STEP :: real where
  "B_REFINE_STEP = 1 / 100"

subsection \<open>Helper (lines 145--146)\<close>

text \<open>
  \<^verbatim>\<open>round_up(value, inc) = math.ceil(value / inc) * inc\<close>; the division raises when
  \<^verbatim>\<open>inc\<close> is zero.
\<close>

definition round_up :: "real \<Rightarrow> real \<Rightarrow> error + real" where
  "round_up v inc =
     (if inc = 0 then Inl ZeroDivisionError
      else Inr (of_int \<lceil>v / inc\<rceil> * inc))"

subsection \<open>The solver (lines 154--217)\<close>

text \<open>
  One pass through the body of the \<^verbatim>\<open>while True\<close> loop up to the test (lines 185--202):
  the depth, the axial load, the bearing pressure and the utilisation at the trial
  width \<open>B\<close>.
\<close>

record trial =
  tr_t :: real
  tr_N_ck :: real
  tr_q_ed :: real
  tr_util :: real

definition trial_step ::
  "real \<Rightarrow> real \<Rightarrow> real \<Rightarrow> real \<Rightarrow> real \<Rightarrow> bool \<Rightarrow> real \<Rightarrow> error + trial" where
  "trial_step G Q Sur_G Sur_Q q_allow include_self_weight B =
     (let t = 0.5 * B;
          N_ck_sur_G = Sur_G * B\<^sup>2;
          N_ck_sur_Q = Sur_Q * B\<^sup>2;
          W_pad = (if include_self_weight then B\<^sup>2 * t * GAMMA_CONC else 0);
          N_ck = gamma_G * (G + W_pad + N_ck_sur_G) + gamma_Q * (Q + N_ck_sur_Q)
      in if B\<^sup>2 = 0 then Inl ZeroDivisionError
         else let q_ed = N_ck / B\<^sup>2
              in if q_allow = 0 then Inl ZeroDivisionError
                 else Inr \<lparr>tr_t = t, tr_N_ck = N_ck, tr_q_ed = q_ed,
                           tr_util = q_ed / q_allow\<rparr>)"

text \<open>
  The loop itself (lines 183--207): the width grows by \<open>B_REFINE_STEP\<close> while the
  utilisation exceeds the target; the loop has no other exit. It returns the width and
  the depth of the last pass.
\<close>

partial_function (option) refine_width ::
  "real \<Rightarrow> real \<Rightarrow> real \<Rightarrow> real \<Rightarrow> real \<Rightarrow> real \<Rightarrow> bool \<Rightarrow> real \<Rightarrow> (error + real \<times> real) option"
where
  "refine_width G Q Sur_G Sur_Q q_allow target_utilisation include_self_weight B =
     (case trial_step G Q Sur_G Sur_Q q_allow include_self_weight B of
        Inl e \<Rightarrow> Some (Inl e)
      | Inr tr \<Rightarrow>
          if tr_util tr > target_utilisation
          then refine_width G Q Sur_G Sur_Q q_allow target_utilisation include_self_weight
                 (B + B_REFINE_STEP)
          else Some (Inr (B, tr_t tr)))"

record solution =
  sol_B_opt :: real
  sol_t :: real
  sol_N_ck_initial :: real
  sol_q_target :: real

text \<open>
  \<^verbatim>\<open>solve_pad\<close>: the base load, the target pressure, the seed width
  \<^verbatim>\<open>max(math.sqrt(A_req), min_width)\<close> and the loop. The parameters
  \<^verbatim>\<open>min_depth\<close> and \<^verbatim>\<open>rounding\<close> are received and not read.
\<close>

definition solve_pad ::
  "real \<Rightarrow> real \<Rightarrow> real \<Rightarrow> real \<Rightarrow> real \<Rightarrow> real \<Rightarrow> real \<Rightarrow> real \<Rightarrow> real \<Rightarrow> bool
     \<Rightarrow> (error + solution) option" where
  "solve_pad G Q Sur_G Sur_Q q_allow target_utilisation min_width min_depth rounding
       include_self_weight =
     (let N_ck_initial = gamma_G * G + gamma_Q * Q;
          q_target = target_utilisation * q_allow
      in if q_target = 0 then Some (Inl ZeroDivisionError)
         else let A_req = N_ck_initial / q_target
              in if A_req < 0 then Some (Inl ValueError)
                 else let B = max (sqrt A_req) min_width
                      in (case refine_width G Q Sur_G Sur_Q q_allow target_utilisation
                                 include_self_weight B of
                            None \<Rightarrow> None
                          | Some (Inl e) \<Rightarrow> Some (Inl e)
                          | Some (Inr (B_opt, t)) \<Rightarrow>
                              Some (Inr \<lparr>sol_B_opt = B_opt, sol_t = t,
                                         sol_N_ck_initial = N_ck_initial,
                                         sol_q_target = q_target\<rparr>)))"

subsection \<open>Rounding and the final check (lines 248--281)\<close>

record pad_results =
  res_B_final :: real
  res_t_round :: real
  res_q_ed :: real
  res_utilisation :: real
  res_N_ck :: real
  res_volume :: real

text \<open>
  The width is rounded up, the depth is taken from the rounded width, and load,
  pressure and utilisation are computed again. The indicative area \<^verbatim>\<open>A0\<close> and width
  \<^verbatim>\<open>B0\<close> only feed the report text, but their division and square root can raise like
  any other. The report text itself (\<^verbatim>\<open>calc_md\<close>) is formatting and is left out.
\<close>

definition final_design ::
  "real \<Rightarrow> real \<Rightarrow> real \<Rightarrow> real \<Rightarrow> real \<Rightarrow> real \<Rightarrow> bool \<Rightarrow> solution \<Rightarrow> error + pad_results"
where
  "final_design G Q Sur_G Sur_Q q_allow rounding include_self_weight result =
     (case round_up (sol_B_opt result) rounding of
        Inl e \<Rightarrow> Inl e
      | Inr B_final \<Rightarrow>
          let t_round = 0.5 * B_final;
              W_pad = (if include_self_weight then B_final\<^sup>2 * t_round * GAMMA_CONC else 0);
              N_ck_sur_G = Sur_G * B_final\<^sup>2;
              N_ck_sur_Q = Sur_Q * B_final\<^sup>2;
              N_ck_final = gamma_G * (G + W_pad + N_ck_sur_G) + gamma_Q * (Q + N_ck_sur_Q)
          in if B_final\<^sup>2 = 0 then Inl ZeroDivisionError
             else let q_ed = N_ck_final / B_final\<^sup>2
                  in if q_allow = 0 then Inl ZeroDivisionError
                     else let utilisation = q_ed / q_allow
                          in if sol_q_target result = 0 then Inl ZeroDivisionError
                             else let A0 = sol_N_ck_initial result / sol_q_target result
                                  in if A0 < 0 then Inl ValueError
                                     else Inr \<lparr>res_B_final = B_final,
                                               res_t_round = t_round,
                                               res_q_ed = q_ed,
                                               res_utilisation = utilisation,
                                               res_N_ck = N_ck_final,
                                               res_volume = B_final\<^sup>2 * t_round\<rparr>)"

subsection \<open>The calculation over the session's pads (lines 227--405)\<close>

text \<open>
  The inputs common to all pads, and a pad of the session list: its loads and, once
  computed, its results. The branch \<^verbatim>\<open>if result is None\<close> of the source is never
  taken, since \<^verbatim>\<open>solve_pad\<close> has no path that returns \<^verbatim>\<open>None\<close>. The loop over the
  pads stops at the first pad whose calculation raises or does not return; the model then
  gives the error, or \<open>None\<close>, for the whole list.
\<close>

record inputs =
  in_q_allow :: real
  in_rounding :: real
  in_target_utilisation :: real
  in_min_width :: real
  in_min_depth :: real
  in_include_self_weight :: bool

record pad =
  pad_id :: nat
  pad_G :: real
  pad_Q :: real
  pad_Sur_G :: real
  pad_Sur_Q :: real
  pad_res :: "pad_results option"

definition design_pad :: "inputs \<Rightarrow> pad \<Rightarrow> (error + pad) option" where
  "design_pad c p =
     (case solve_pad (pad_G p) (pad_Q p) (pad_Sur_G p) (pad_Sur_Q p) (in_q_allow c)
             (in_target_utilisation c) (in_min_width c) (in_min_depth c) (in_rounding c)
             (in_include_self_weight c) of
        None \<Rightarrow> None
      | Some (Inl e) \<Rightarrow> Some (Inl e)
      | Some (Inr result) \<Rightarrow>
          (case final_design (pad_G p) (pad_Q p) (pad_Sur_G p) (pad_Sur_Q p) (in_q_allow c)
                  (in_rounding c) (in_include_self_weight c) result of
             Inl e \<Rightarrow> Some (Inl e)
           | Inr res \<Rightarrow> Some (Inr (p\<lparr>pad_res := Some res\<rparr>))))"

fun design_pads :: "inputs \<Rightarrow> pad list \<Rightarrow> (error + pad list) option" where
  "design_pads c [] = Some (Inr [])"
| "design_pads c (p # ps) =
     (case design_pad c p of
        None \<Rightarrow> None
      | Some (Inl e) \<Rightarrow> Some (Inl e)
      | Some (Inr p') \<Rightarrow>
          (case design_pads c ps of
             None \<Rightarrow> None
           | Some (Inl e) \<Rightarrow> Some (Inl e)
           | Some (Inr ps') \<Rightarrow> Some (Inr (p' # ps'))))"

subsection \<open>The solver in double precision\<close>

text \<open>
  The same solver with the arithmetic of the program: every operation gives the double
  nearest to the exact result, ties to the even mantissa. \<open>rd\<close> rounds a real to 53
  significant bits; the range of the exponent is not modelled (no overflow, no
  subnormal numbers), and no value in the runs evaluated below comes near its ends.
  The arguments are doubles already. \<^verbatim>\<open>B**2\<close> is taken as the rounded product
  \<open>rd (B * B)\<close>, and \<^verbatim>\<open>math.sqrt\<close> as the rounded square root. The operations are in the
  order of the source: \<^verbatim>\<open>B**2 * t * GAMMA_CONC\<close> multiplies from the left, and
  \<^verbatim>\<open>B**2\<close> is computed anew at each place it is written.
\<close>

definition round_even :: "real \<Rightarrow> int" where
  "round_even y =
     (let n = \<lfloor>y\<rfloor>; f = y - of_int n
      in if f < 1 / 2 then n
         else if 1 / 2 < f then n + 1
         else if even n then n else n + 1)"

definition rd :: "real \<Rightarrow> real" where
  "rd x =
     (if x = 0 then 0
      else let u = 2 powi (\<lfloor>log 2 \<bar>x\<bar>\<rfloor> - 52)
           in of_int (round_even (x / u)) * u)"

definition trial_step_d ::
  "real \<Rightarrow> real \<Rightarrow> real \<Rightarrow> real \<Rightarrow> real \<Rightarrow> bool \<Rightarrow> real \<Rightarrow> error + trial" where
  "trial_step_d G Q Sur_G Sur_Q q_allow include_self_weight B =
     (let t = rd (0.5 * B);
          N_ck_sur_G = rd (Sur_G * rd (B * B));
          N_ck_sur_Q = rd (Sur_Q * rd (B * B));
          W_pad = (if include_self_weight then rd (rd (rd (B * B) * t) * GAMMA_CONC) else 0);
          N_ck = rd (rd (gamma_G * rd (rd (G + W_pad) + N_ck_sur_G))
                     + rd (gamma_Q * rd (Q + N_ck_sur_Q)))
      in if rd (B * B) = 0 then Inl ZeroDivisionError
         else let q_ed = rd (N_ck / rd (B * B))
              in if q_allow = 0 then Inl ZeroDivisionError
                 else Inr \<lparr>tr_t = t, tr_N_ck = N_ck, tr_q_ed = q_ed,
                           tr_util = rd (q_ed / q_allow)\<rparr>)"

partial_function (option) refine_width_d ::
  "real \<Rightarrow> real \<Rightarrow> real \<Rightarrow> real \<Rightarrow> real \<Rightarrow> real \<Rightarrow> bool \<Rightarrow> real \<Rightarrow> (error + real \<times> real) option"
where
  "refine_width_d G Q Sur_G Sur_Q q_allow target_utilisation include_self_weight B =
     (case trial_step_d G Q Sur_G Sur_Q q_allow include_self_weight B of
        Inl e \<Rightarrow> Some (Inl e)
      | Inr tr \<Rightarrow>
          if tr_util tr > target_utilisation
          then refine_width_d G Q Sur_G Sur_Q q_allow target_utilisation include_self_weight
                 (rd (B + rd B_REFINE_STEP))
          else Some (Inr (B, tr_t tr)))"

definition solve_pad_d ::
  "real \<Rightarrow> real \<Rightarrow> real \<Rightarrow> real \<Rightarrow> real \<Rightarrow> real \<Rightarrow> real \<Rightarrow> real \<Rightarrow> real \<Rightarrow> bool
     \<Rightarrow> (error + solution) option" where
  "solve_pad_d G Q Sur_G Sur_Q q_allow target_utilisation min_width min_depth rounding
       include_self_weight =
     (let N_ck_initial = rd (rd (gamma_G * G) + rd (gamma_Q * Q));
          q_target = rd (target_utilisation * q_allow)
      in if q_target = 0 then Some (Inl ZeroDivisionError)
         else let A_req = rd (N_ck_initial / q_target)
              in if A_req < 0 then Some (Inl ValueError)
                 else let B = max (rd (sqrt A_req)) min_width
                      in (case refine_width_d G Q Sur_G Sur_Q q_allow target_utilisation
                                 include_self_weight B of
                            None \<Rightarrow> None
                          | Some (Inl e) \<Rightarrow> Some (Inl e)
                          | Some (Inr (B_opt, t)) \<Rightarrow>
                              Some (Inr \<lparr>sol_B_opt = B_opt, sol_t = t,
                                         sol_N_ck_initial = N_ck_initial,
                                         sol_q_target = q_target\<rparr>)))"

subsection \<open>Auxiliary notions for the proofs\<close>

text \<open>
  What it means for the loop, started at width \<open>B\<close>, to have ended with \<open>y\<close>: if \<open>y\<close>
  is a pair \<open>(B', t')\<close> then \<open>B'\<close> is \<open>B\<close> plus some number \<open>k\<close> of steps, the pass at
  \<open>B'\<close> gives the depth \<open>t'\<close> and a utilisation within the target, and each of the \<open>k\<close>
  passes before it gave a utilisation above the target.
\<close>

definition loop_exit ::
  "real \<Rightarrow> real \<Rightarrow> real \<Rightarrow> real \<Rightarrow> real \<Rightarrow> real \<Rightarrow> bool \<Rightarrow> real \<Rightarrow> (error + real \<times> real) \<Rightarrow> bool"
where
  "loop_exit G Q Sur_G Sur_Q q_allow tu isw B y \<longleftrightarrow>
     (\<forall>B' t'. y = Inr (B', t') \<longrightarrow>
        (\<exists>k::nat. B' = B + real k * B_REFINE_STEP \<and>
           (\<exists>tr. trial_step G Q Sur_G Sur_Q q_allow isw B' = Inr tr \<and> tr_t tr = t'
                  \<and> tr_util tr \<le> tu) \<and>
           (\<forall>m<k. \<exists>tr. trial_step G Q Sur_G Sur_Q q_allow isw (B + real m * B_REFINE_STEP) = Inr tr
                     \<and> tu < tr_util tr)))"

text \<open>
  The load accumulation as the specification words it: the self-weight
  \<open>B\<^sup>2 \<cdot> t \<cdot> \<gamma>c\<close> when it is included and \<open>0\<close> otherwise, the design load
  \<open>\<gamma>G \<cdot> (G + selfWeight + surchargeDead \<cdot> B\<^sup>2) + \<gamma>Q \<cdot> (Q + surchargeLive \<cdot> B\<^sup>2)\<close> and the
  bearing pressure \<open>N_ck / B\<^sup>2\<close>, with \<open>\<gamma>G = \<gamma>Q = 1.0\<close> and \<open>\<gamma>c = 24.0\<close>. These three are
  written from the specification, to be compared with the code.
\<close>

definition spec_selfWeight :: "bool \<Rightarrow> real \<Rightarrow> real \<Rightarrow> real" where
  "spec_selfWeight includeSelfWeight B t = (if includeSelfWeight then B\<^sup>2 * t * 24 else 0)"

definition spec_designLoad ::
  "real \<Rightarrow> real \<Rightarrow> real \<Rightarrow> real \<Rightarrow> bool \<Rightarrow> real \<Rightarrow> real \<Rightarrow> real" where
  "spec_designLoad G Q surchargeDead surchargeLive includeSelfWeight B t =
     1 * (G + spec_selfWeight includeSelfWeight B t + surchargeDead * B\<^sup>2)
     + 1 * (Q + surchargeLive * B\<^sup>2)"

definition spec_bearingPressure ::
  "real \<Rightarrow> real \<Rightarrow> real \<Rightarrow> real \<Rightarrow> bool \<Rightarrow> real \<Rightarrow> real \<Rightarrow> real" where
  "spec_bearingPressure G Q surchargeDead surchargeLive includeSelfWeight B t =
     spec_designLoad G Q surchargeDead surchargeLive includeSelfWeight B t / B\<^sup>2"

text \<open>
  The bearing pressure at a width \<open>B\<close> other than zero, in closed form: the base load over
  the area, the self-weight \<open>B\<^sup>2 \<cdot> (B / 2) \<cdot> 24 / B\<^sup>2 = 12 B\<close> when it is included, and the
  two surcharges.
\<close>

definition pressure_at :: "real \<Rightarrow> real \<Rightarrow> real \<Rightarrow> real \<Rightarrow> bool \<Rightarrow> real \<Rightarrow> real" where
  "pressure_at G Q Sur_G Sur_Q isw B =
     (G + Q) / B\<^sup>2 + (if isw then 12 * B else 0) + Sur_G + Sur_Q"

section \<open>Properties\<close>

subsection \<open>Facts about the loop and the solver\<close>

lemma trial_step_Inr:
  "trial_step G Q Sur_G Sur_Q q_allow isw B = Inr tr \<Longrightarrow>
     B \<noteq> 0 \<and> q_allow \<noteq> 0 \<and> tr_t tr = B / 2 \<and>
     tr_N_ck tr = (G + (if isw then B\<^sup>2 * (B / 2) * 24 else 0) + Sur_G * B\<^sup>2) + (Q + Sur_Q * B\<^sup>2) \<and>
     tr_q_ed tr = tr_N_ck tr / B\<^sup>2 \<and> tr_util tr = tr_q_ed tr / q_allow"
  by (auto simp add: trial_step_def Let_def GAMMA_CONC_def gamma_G_def gamma_Q_def split: if_splits)

lemma loop_exit_stop:
  assumes "trial_step G Q Sur_G Sur_Q q_allow isw B = Inr tr" "\<not> tu < tr_util tr"
  shows "loop_exit G Q Sur_G Sur_Q q_allow tu isw B (Inr (B, tr_t tr))"
proof -
  have "B = B + real (0::nat) * B_REFINE_STEP" by simp
  moreover have "\<exists>tr'. trial_step G Q Sur_G Sur_Q q_allow isw B = Inr tr' \<and> tr_t tr' = tr_t tr \<and> tr_util tr' \<le> tu"
    using assms by auto
  moreover have "\<forall>m<(0::nat). \<exists>tr. trial_step G Q Sur_G Sur_Q q_allow isw (B + real m * B_REFINE_STEP) = Inr tr
                     \<and> tu < tr_util tr" by simp
  ultimately show ?thesis unfolding loop_exit_def by blast
qed

lemma loop_exit_step:
  assumes tr: "trial_step G Q Sur_G Sur_Q q_allow isw B = Inr tr" "tu < tr_util tr"
    and nxt: "loop_exit G Q Sur_G Sur_Q q_allow tu isw (B + B_REFINE_STEP) y"
  shows "loop_exit G Q Sur_G Sur_Q q_allow tu isw B y"
  unfolding loop_exit_def
proof (intro allI impI)
  fix B' t' assume "y = Inr (B', t')"
  with nxt obtain k :: nat where k:
    "B' = B + B_REFINE_STEP + real k * B_REFINE_STEP"
    "\<exists>tr. trial_step G Q Sur_G Sur_Q q_allow isw B' = Inr tr \<and> tr_t tr = t' \<and> tr_util tr \<le> tu"
    "\<forall>m<k. \<exists>tr. trial_step G Q Sur_G Sur_Q q_allow isw (B + B_REFINE_STEP + real m * B_REFINE_STEP) = Inr tr
                  \<and> tu < tr_util tr"
    unfolding loop_exit_def by blast
  have a: "B' = B + real (Suc k) * B_REFINE_STEP" using k(1) by (simp add: algebra_simps)
  have b: "\<exists>tr. trial_step G Q Sur_G Sur_Q q_allow isw (B + real m * B_REFINE_STEP) = Inr tr
                  \<and> tu < tr_util tr" if "m < Suc k" for m
  proof (cases m)
    case 0
    then show ?thesis using tr by simp
  next
    case (Suc m')
    then have "m' < k" using that by simp
    with k(3) have "\<exists>tr. trial_step G Q Sur_G Sur_Q q_allow isw (B + B_REFINE_STEP + real m' * B_REFINE_STEP) = Inr tr
                  \<and> tu < tr_util tr" by blast
    moreover have "B + B_REFINE_STEP + real m' * B_REFINE_STEP = B + real m * B_REFINE_STEP"
      using Suc by (simp add: algebra_simps)
    ultimately show ?thesis by simp
  qed
  from a k(2) b show "\<exists>k::nat. B' = B + real k * B_REFINE_STEP \<and>
        (\<exists>tr. trial_step G Q Sur_G Sur_Q q_allow isw B' = Inr tr \<and> tr_t tr = t' \<and> tr_util tr \<le> tu) \<and>
        (\<forall>m<k. \<exists>tr. trial_step G Q Sur_G Sur_Q q_allow isw (B + real m * B_REFINE_STEP) = Inr tr
                  \<and> tu < tr_util tr)"
    by blast
qed

lemma refine_width_exit:
  assumes "refine_width G Q Sur_G Sur_Q q_allow tu isw B = Some y"
  shows "loop_exit G Q Sur_G Sur_Q q_allow tu isw B y"
proof (rule refine_width.raw_induct[where P = loop_exit, OF _ assms])
  fix rw G Q Sur_G Sur_Q q_allow tu isw B y
  assume IH: "\<And>G Q Sur_G Sur_Q q_allow tu isw B y.
                 rw G Q Sur_G Sur_Q q_allow tu isw B = Some y \<Longrightarrow>
                 loop_exit G Q Sur_G Sur_Q q_allow tu isw B y"
    and eq: "(case trial_step G Q Sur_G Sur_Q q_allow isw B of
                Inl e \<Rightarrow> Some (Inl e)
              | Inr tr \<Rightarrow> if tu < tr_util tr
                          then rw G Q Sur_G Sur_Q q_allow tu isw (B + B_REFINE_STEP)
                          else Some (Inr (B, tr_t tr))) = Some y"
  show "loop_exit G Q Sur_G Sur_Q q_allow tu isw B y"
  proof (cases "trial_step G Q Sur_G Sur_Q q_allow isw B")
    case (Inl e)
    with eq have "y = Inl e" by simp
    then show ?thesis by (simp add: loop_exit_def)
  next
    case (Inr tr)
    show ?thesis
    proof (cases "tu < tr_util tr")
      case False
      with eq Inr have "y = Inr (B, tr_t tr)" by simp
      with loop_exit_stop[OF Inr False] show ?thesis by simp
    next
      case True
      with eq Inr have "rw G Q Sur_G Sur_Q q_allow tu isw (B + B_REFINE_STEP) = Some y" by simp
      from loop_exit_step[OF Inr True IH[OF this]] show ?thesis .
    qed
  qed
qed

lemma solve_pad_Inr:
  assumes "solve_pad G Q Sur_G Sur_Q q_allow tu min_width min_depth rounding isw = Some (Inr s)"
  shows "tu * q_allow \<noteq> 0 \<and> 0 \<le> (G + Q) / (tu * q_allow) \<and>
         sol_N_ck_initial s = G + Q \<and> sol_q_target s = tu * q_allow \<and>
         refine_width G Q Sur_G Sur_Q q_allow tu isw (max (sqrt ((G + Q) / (tu * q_allow))) min_width)
           = Some (Inr (sol_B_opt s, sol_t s))"
  using assms
  by (auto simp add: solve_pad_def Let_def gamma_G_def gamma_Q_def
           split: if_splits option.splits sum.splits prod.splits)

text \<open>
  Two runs used below. With \<open>G = 540\<close>, a dead surcharge of \<open>1\<close>, \<open>q_allow = 150\<close>, a
  target of \<open>0.9\<close>, a minimum width of \<open>1.5\<close> and no self-weight, the seed width is \<open>2\<close>,
  the loop steps once and stops at \<open>2.01\<close>; rounding to \<open>0.2\<close> gives \<open>2.2\<close>.
\<close>

lemma solve_pad_example:
  "solve_pad 540 0 1 0 150 (9/10) (3/2) min_depth rounding False
     = Some (Inr \<lparr>sol_B_opt = 201/100, sol_t = 201/200, sol_N_ck_initial = 540,
                  sol_q_target = 135\<rparr>)"
proof -
  have r2: "refine_width 540 0 1 0 150 (9/10) False (201/100) = Some (Inr (201/100, 201/200))"
    by (subst refine_width.simps)
       (simp add: trial_step_def Let_def gamma_G_def gamma_Q_def power2_eq_square)
  have r1: "refine_width 540 0 1 0 150 (9/10) False 2 = Some (Inr (201/100, 201/200))"
    by (subst refine_width.simps)
       (simp add: trial_step_def Let_def gamma_G_def gamma_Q_def B_REFINE_STEP_def r2)
  show ?thesis
    by (simp add: solve_pad_def Let_def gamma_G_def gamma_Q_def r1)
qed

lemma final_design_example:
  "final_design 540 0 1 0 150 (1/5) False
      \<lparr>sol_B_opt = 201/100, sol_t = 201/200, sol_N_ck_initial = 540, sol_q_target = 135\<rparr>
     = Inr \<lparr>res_B_final = 11/5, res_t_round = 11/10, res_q_ed = 13621/121,
            res_utilisation = 13621/18150, res_N_ck = 13621/25, res_volume = 1331/250\<rparr>"
proof -
  have c: "\<lceil>(201::real) / 20\<rceil> = 11" by (simp add: ceiling_eq_iff)
  have r: "round_up (201/100) (1/5) = Inr (11/5)"
    by (simp add: round_up_def c)
  show ?thesis
    by (simp add: final_design_def r Let_def gamma_G_def gamma_Q_def power2_eq_square)
qed

text \<open>
  With \<open>G = 750\<close>, \<open>Q = 500\<close>, \<open>q_allow = 25\<close>, a target of \<open>0.5\<close> and self-weight, the
  self-weight alone gives a pressure of \<open>12 B\<close>, above the target pressure \<open>12.5\<close> at
  every width from \<open>10\<close> on: the loop, started there, never ends.
\<close>

lemma refine_width_diverges:
  assumes "10 \<le> B"
  shows "refine_width 750 500 0 0 25 (1/2) True B = None"
proof (rule ccontr)
  assume "refine_width 750 500 0 0 25 (1/2) True B \<noteq> None"
  then obtain y where y: "refine_width 750 500 0 0 25 (1/2) True B = Some y" by auto
  have "\<not> (750 = (750::real) \<and> 500 = (500::real) \<and> 0 = (0::real) \<and> 0 = (0::real) \<and> 25 = (25::real)
            \<and> 1/2 = (1/2::real) \<and> True \<and> 10 \<le> B)"
  proof (rule refine_width.raw_induct[where
        P = "\<lambda>G Q Sur_G Sur_Q q_allow tu isw B y.
               \<not> (G = 750 \<and> Q = 500 \<and> Sur_G = 0 \<and> Sur_Q = 0 \<and> q_allow = 25 \<and> tu = 1/2 \<and> isw
                  \<and> 10 \<le> B)", OF _ y])
    fix rw G Q Sur_G Sur_Q q_allow tu isw and B y :: "_"
    assume IH: "\<And>G Q Sur_G Sur_Q q_allow tu isw B y.
                 rw G Q Sur_G Sur_Q q_allow tu isw B = Some y \<Longrightarrow>
                 \<not> (G = 750 \<and> Q = 500 \<and> Sur_G = 0 \<and> Sur_Q = 0 \<and> q_allow = 25 \<and> tu = 1/2 \<and> isw
                  \<and> 10 \<le> B)"
      and eq: "(case trial_step G Q Sur_G Sur_Q q_allow isw B of
                Inl e \<Rightarrow> Some (Inl e)
              | Inr tr \<Rightarrow> if tu < tr_util tr
                          then rw G Q Sur_G Sur_Q q_allow tu isw (B + B_REFINE_STEP)
                          else Some (Inr (B, tr_t tr))) = Some y"
    show "\<not> (G = 750 \<and> Q = 500 \<and> Sur_G = 0 \<and> Sur_Q = 0 \<and> q_allow = 25 \<and> tu = 1/2 \<and> isw
                  \<and> 10 \<le> B)"
    proof
      assume a: "G = 750 \<and> Q = 500 \<and> Sur_G = 0 \<and> Sur_Q = 0 \<and> q_allow = 25 \<and> tu = 1/2 \<and> isw
                  \<and> 10 \<le> B"
      then have B: "10 \<le> B" by simp
      then have B2: "0 < B\<^sup>2" by simp
      have "10 * B\<^sup>2 \<le> B * B\<^sup>2" using B by (intro mult_right_mono) simp_all
      with B2 have "25 * B\<^sup>2 / 2 < 1250 + 12 * (B * B\<^sup>2)" by linarith
      then have "25 / 2 < (1250 + 12 * (B * B\<^sup>2)) / B\<^sup>2"
        using B2 by (simp add: pos_less_divide_eq)
      then have u: "1 / 2 < (1250 + 12 * (B * B\<^sup>2)) / B\<^sup>2 / 25" by simp
      obtain tr where tr: "trial_step G Q Sur_G Sur_Q q_allow isw B = Inr tr"
        using a B by (auto simp add: trial_step_def Let_def)
      from trial_step_Inr[OF tr]
      have "tr_util tr = tr_q_ed tr / q_allow" "tr_q_ed tr = tr_N_ck tr / B\<^sup>2"
        "tr_N_ck tr = (G + (if isw then B\<^sup>2 * (B / 2) * 24 else 0) + Sur_G * B\<^sup>2)
                        + (Q + Sur_Q * B\<^sup>2)"
        by blast+
      moreover have "(750 + B\<^sup>2 * (B / 2) * 24 + 0 * B\<^sup>2) + (500 + 0 * B\<^sup>2)
                       = 1250 + 12 * (B * B\<^sup>2)" by simp
      ultimately have e: "tr_util tr = (1250 + 12 * (B * B\<^sup>2)) / B\<^sup>2 / 25"
        using a by simp
      from a have tu: "tu = 1 / 2" by simp
      have "tu < tr_util tr" by (simp only: e tu u)
      with eq tr have "rw G Q Sur_G Sur_Q q_allow tu isw (B + B_REFINE_STEP) = Some y" by simp
      from IH[OF this] a show False by (simp add: B_REFINE_STEP_def)
    qed
  qed
  with assms show False by simp
qed

lemma final_design_Inr:
  assumes "final_design G Q Sur_G Sur_Q q_allow rounding isw s = Inr res"
  shows "rounding \<noteq> 0 \<and> q_allow \<noteq> 0 \<and>
         res_B_final res = of_int \<lceil>sol_B_opt s / rounding\<rceil> * rounding \<and>
         res_B_final res \<noteq> 0 \<and>
         res_t_round res = res_B_final res / 2 \<and>
         res_N_ck res = (G + (if isw then (res_B_final res)\<^sup>2 * (res_B_final res / 2) * 24 else 0)
                           + Sur_G * (res_B_final res)\<^sup>2) + (Q + Sur_Q * (res_B_final res)\<^sup>2) \<and>
         res_q_ed res = res_N_ck res / (res_B_final res)\<^sup>2 \<and>
         res_utilisation res = res_q_ed res / q_allow \<and>
         res_volume res = (res_B_final res)\<^sup>2 * res_t_round res"
  using assms
  by (auto simp add: final_design_def round_up_def Let_def GAMMA_CONC_def gamma_G_def gamma_Q_def
           split: sum.splits if_splits)

text \<open>
  The calculation of a pad reads its loads and the common inputs, and writes its
  results; it reads neither the identifier nor results stored earlier.
\<close>

lemma design_pad_reads_loads:
  assumes "pad_G p = pad_G q" "pad_Q p = pad_Q q" "pad_Sur_G p = pad_Sur_G q"
    "pad_Sur_Q p = pad_Sur_Q q"
  shows "map_option (map_sum id pad_res) (design_pad c p)
           = map_option (map_sum id pad_res) (design_pad c q)"
  using assms by (simp add: design_pad_def split: option.splits sum.splits)

lemma design_pad_again:
  assumes "design_pad c p = Some (Inr p')"
  shows "design_pad c p' = Some (Inr p')"
proof -
  from assms obtain res where p': "p' = p\<lparr>pad_res := Some res\<rparr>"
    by (auto simp add: design_pad_def split: option.splits sum.splits)
  with assms show ?thesis
    by (auto simp add: design_pad_def split: option.splits sum.splits)
qed

lemma design_pads_again:
  "design_pads c ps = Some (Inr ps') \<Longrightarrow> design_pads c ps' = Some (Inr ps')"
proof (induction ps arbitrary: ps')
  case Nil
  then show ?case by simp
next
  case (Cons p ps)
  from Cons.prems obtain p' qs where
    p': "design_pad c p = Some (Inr p')" and qs: "design_pads c ps = Some (Inr qs)"
    and e: "ps' = p' # qs"
    by (auto split: option.splits sum.splits)
  from design_pad_again[OF p'] Cons.IH[OF qs] e show ?case by simp
qed

lemma design_pad_example:
  "design_pad \<lparr>in_q_allow = 150, in_rounding = 1/5, in_target_utilisation = 9/10,
               in_min_width = 3/2, in_min_depth = 3/4, in_include_self_weight = False\<rparr>
              \<lparr>pad_id = n, pad_G = 540, pad_Q = 0, pad_Sur_G = 1, pad_Sur_Q = 0, pad_res = r\<rparr>
     = Some (Inr \<lparr>pad_id = n, pad_G = 540, pad_Q = 0, pad_Sur_G = 1, pad_Sur_Q = 0,
                  pad_res = Some \<lparr>res_B_final = 11/5, res_t_round = 11/10, res_q_ed = 13621/121,
                     res_utilisation = 13621/18150, res_N_ck = 13621/25,
                     res_volume = 1331/250\<rparr>\<rparr>)"
  by (simp add: design_pad_def solve_pad_example final_design_example)

text \<open>
  Utilisation as a function of the width: the closed form, and how it compares at two
  widths.
\<close>

lemma trial_step_pressure:
  assumes "trial_step G Q Sur_G Sur_Q q_allow isw B = Inr tr"
  shows "tr_q_ed tr = pressure_at G Q Sur_G Sur_Q isw B"
    and "tr_util tr = pressure_at G Q Sur_G Sur_Q isw B / q_allow"
proof -
  from trial_step_Inr[OF assms]
  have B: "B \<noteq> 0" and u: "tr_util tr = tr_q_ed tr / q_allow"
    and q: "tr_q_ed tr = tr_N_ck tr / B\<^sup>2"
    and N: "tr_N_ck tr = (G + (if isw then B\<^sup>2 * (B / 2) * 24 else 0) + Sur_G * B\<^sup>2)
                        + (Q + Sur_Q * B\<^sup>2)"
    by blast+
  show "tr_q_ed tr = pressure_at G Q Sur_G Sur_Q isw B"
    unfolding q N pressure_at_def using B by (simp add: field_simps)
  then show "tr_util tr = pressure_at G Q Sur_G Sur_Q isw B / q_allow"
    using u by simp
qed




lemma solve_pad_exit:
  assumes "solve_pad G Q Sur_G Sur_Q q_allow tu min_width min_depth rounding isw = Some (Inr s)"
  shows "loop_exit G Q Sur_G Sur_Q q_allow tu isw
           (max (sqrt ((G + Q) / (tu * q_allow))) min_width) (Inr (sol_B_opt s, sol_t s))"
  using solve_pad_Inr[OF assms] refine_width_exit by blast




text \<open>
  Two facts behind the monotonicity of the converged width: more load gives more
  pressure at the same width; and a seed \<open>x1\<close> that covers its base load, moved \<open>D\<close> further,
  leaves a base pressure no higher than the exact seed \<open>s2 \<ge> x1\<close> of a larger load moved
  as far.
\<close>

lemma pressure_mono_loads:
  assumes "B \<noteq> 0" "G1 + Q1 \<le> G2 + Q2" "SG1 \<le> SG2" "SQ1 \<le> SQ2"
  shows "pressure_at G1 Q1 SG1 SQ1 isw B \<le> pressure_at G2 Q2 SG2 SQ2 isw B"
proof -
  have "0 < B\<^sup>2" using assms(1) by simp
  then have "(G1 + Q1) / B\<^sup>2 \<le> (G2 + Q2) / B\<^sup>2"
    using assms(2) by (simp add: divide_right_mono)
  with assms(3,4) show ?thesis by (simp add: pressure_at_def)
qed

lemma seed_ratio:
  fixes x1 s2 D qt N1 N2 :: real
  assumes "0 \<le> x1" "x1 \<le> s2" "0 \<le> D" "0 < x1 + D" "0 < qt"
    and N1: "N1 \<le> qt * x1\<^sup>2" and N2: "N2 = qt * s2\<^sup>2"
  shows "N1 / (x1 + D)\<^sup>2 \<le> N2 / (s2 + D)\<^sup>2"
proof -
  have z1: "0 < x1 + D" and z2: "0 < s2 + D" using assms by simp_all
  have "x1 * D \<le> s2 * D" using assms(2,3) by (rule mult_right_mono)
  then have "x1 * (s2 + D) \<le> s2 * (x1 + D)" by (simp add: algebra_simps)
  then have r: "x1 / (x1 + D) \<le> s2 / (s2 + D)"
    using z1 z2 by (simp add: field_simps)
  have "0 \<le> x1 / (x1 + D)" using assms(1) z1 by simp
  with r have sq: "(x1 / (x1 + D))\<^sup>2 \<le> (s2 / (s2 + D))\<^sup>2" by (simp add: power_mono)
  have "N1 / (x1 + D)\<^sup>2 \<le> qt * x1\<^sup>2 / (x1 + D)\<^sup>2"
    using N1 z1 by (simp add: divide_right_mono)
  also have "\<dots> = qt * (x1 / (x1 + D))\<^sup>2" by (simp add: power_divide)
  also have "\<dots> \<le> qt * (s2 / (s2 + D))\<^sup>2"
    using sq assms(5) by (simp add: mult_left_mono)
  also have "\<dots> = N2 / (s2 + D)\<^sup>2" by (simp add: N2 power_divide)
  finally show ?thesis .
qed

text \<open>
  The first run without its surcharge: the seed \<open>2\<close> meets the target at once.
\<close>

lemma solve_pad_example_base:
  "solve_pad 540 0 0 0 150 (9/10) (3/2) min_depth rounding False
     = Some (Inr \<lparr>sol_B_opt = 2, sol_t = 1, sol_N_ck_initial = 540, sol_q_target = 135\<rparr>)"
proof -
  have r: "refine_width 540 0 0 0 150 (9/10) False 2 = Some (Inr (2, 1))"
    by (subst refine_width.simps)
       (simp add: trial_step_def Let_def gamma_G_def gamma_Q_def)
  show ?thesis
    by (simp add: solve_pad_def Let_def gamma_G_def gamma_Q_def r)
qed

text \<open>
  In exact arithmetic the converged width is monotone in the loads. Take two inputs with
  the same constraints, \<open>q_allow > 0\<close> and a target above zero, the second with each of
  \<open>G\<close>, \<open>Q\<close>, \<open>Sur_G\<close>, \<open>Sur_Q\<close> at least that of the first. If \<open>solve_pad\<close> converges on
  both, the converged width of the second is at least that of the first. This is a fact
  about the algorithm over the reals: there the seed \<open>sqrt (N_ck_initial / q_target)\<close> meets
  the target with equality. It is not a fact about the doubles of the program.
\<close>

lemma exact_width_monotone:
  assumes run1: "solve_pad G1 Q1 SG1 SQ1 q_allow tu min_width min_depth rounding isw = Some (Inr s1)"
    and run2: "solve_pad G2 Q2 SG2 SQ2 q_allow tu min_width min_depth rounding isw = Some (Inr s2)"
    and loads: "G1 \<le> G2" "Q1 \<le> Q2" "SG1 \<le> SG2" "SQ1 \<le> SQ2"
    and valid: "0 < q_allow" "0 < tu"
  shows "sol_B_opt s1 \<le> sol_B_opt s2"
proof (rule ccontr)
  assume "\<not> sol_B_opt s1 \<le> sol_B_opt s2"
  then have less: "sol_B_opt s2 < sol_B_opt s1" by simp
  define qt where "qt = tu * q_allow"
  define r1 where "r1 = sqrt ((G1 + Q1) / qt)"
  define r2 where "r2 = sqrt ((G2 + Q2) / qt)"
  define x1 where "x1 = max r1 min_width"
  define x2 where "x2 = max r2 min_width"
  have qt: "0 < qt" using valid by (simp add: qt_def)
  have N: "G1 + Q1 \<le> G2 + Q2" using loads by simp
  from solve_pad_Inr[OF run1] have A1: "0 \<le> (G1 + Q1) / qt" by (simp add: qt_def)
  from solve_pad_Inr[OF run2] have A2: "0 \<le> (G2 + Q2) / qt" by (simp add: qt_def)
  have "(G1 + Q1) / qt \<le> (G2 + Q2) / qt" using N qt by (simp add: divide_right_mono)
  then have r12: "r1 \<le> r2" by (simp add: r1_def r2_def)
  have r1sq: "r1\<^sup>2 = (G1 + Q1) / qt" using A1 by (simp add: r1_def)
  have r2sq: "r2\<^sup>2 = (G2 + Q2) / qt" using A2 by (simp add: r2_def)
  have r1n: "0 \<le> r1" using A1 by (simp add: r1_def)
  have x1n: "0 \<le> x1" using r1n by (simp add: x1_def le_max_iff_disj)
  have x12: "x1 \<le> x2" using r12 by (auto simp add: x1_def x2_def)
  have N1: "G1 + Q1 \<le> qt * x1\<^sup>2"
  proof -
    have "r1\<^sup>2 \<le> x1\<^sup>2" using r1n by (intro power_mono) (simp_all add: x1_def)
    then have "qt * r1\<^sup>2 \<le> qt * x1\<^sup>2" using qt by (simp add: mult_left_mono)
    moreover have "qt * r1\<^sup>2 = G1 + Q1" using qt by (simp add: r1sq)
    ultimately show ?thesis by simp
  qed
  from solve_pad_exit[OF run1] obtain k1 :: nat where
    B1: "sol_B_opt s1 = x1 + real k1 * B_REFINE_STEP"
    and before1: "\<forall>m<k1. \<exists>tr. trial_step G1 Q1 SG1 SQ1 q_allow isw (x1 + real m * B_REFINE_STEP) = Inr tr
                     \<and> tu < tr_util tr"
    unfolding loop_exit_def x1_def r1_def qt_def by blast
  from solve_pad_exit[OF run2] obtain k2 :: nat and tr2 where
    B2: "sol_B_opt s2 = x2 + real k2 * B_REFINE_STEP"
    and tr2: "trial_step G2 Q2 SG2 SQ2 q_allow isw (sol_B_opt s2) = Inr tr2"
    and ok2: "tr_util tr2 \<le> tu"
    unfolding loop_exit_def x2_def r2_def qt_def by blast
  define D where "D = real k2 * B_REFINE_STEP"
  have Dn: "0 \<le> D" by (simp add: D_def B_REFINE_STEP_def)
  have step: "0 < B_REFINE_STEP" by (simp add: B_REFINE_STEP_def)
  have "x1 + real k2 * B_REFINE_STEP < x1 + real k1 * B_REFINE_STEP"
    using less B1 B2 x12 by simp
  then have "real k2 * B_REFINE_STEP < real k1 * B_REFINE_STEP" by simp
  then have "real k2 < real k1" using step by (simp add: mult_less_cancel_right)
  then have "k2 < k1" by simp
  with before1 obtain tr1 where
    tr1: "trial_step G1 Q1 SG1 SQ1 q_allow isw (x1 + D) = Inr tr1" and over1: "tu < tr_util tr1"
    unfolding D_def by blast
  from trial_step_Inr[OF tr1] have z0: "x1 + D \<noteq> 0" by simp
  with x1n Dn have z: "0 < x1 + D" by simp
  from trial_step_Inr[OF tr2] have b0: "sol_B_opt s2 \<noteq> 0" by simp
  have p1: "qt < pressure_at G1 Q1 SG1 SQ1 isw (x1 + D)"
    using over1 valid(1) unfolding trial_step_pressure(2)[OF tr1] qt_def
    by (simp add: pos_less_divide_eq)
  have p2: "pressure_at G2 Q2 SG2 SQ2 isw (x2 + D) \<le> qt"
    using ok2 valid(1) unfolding trial_step_pressure(2)[OF tr2] qt_def B2 D_def
    by (simp add: pos_divide_le_eq)
  have "pressure_at G1 Q1 SG1 SQ1 isw (x1 + D) \<le> pressure_at G2 Q2 SG2 SQ2 isw (x2 + D)"
  proof (cases "x1 = x2")
    case True
    with pressure_mono_loads[OF z0 N loads(3,4)] show ?thesis by simp
  next
    case False
    with x12 have lt: "x1 < x2" by simp
    have x2r: "x2 = r2"
    proof (rule ccontr)
      assume "x2 \<noteq> r2"
      then have "x2 = min_width" by (auto simp add: x2_def max_def split: if_splits)
      moreover have "min_width \<le> x1" by (simp add: x1_def)
      ultimately show False using lt by simp
    qed
    have N2: "G2 + Q2 = qt * r2\<^sup>2" using qt by (simp add: r2sq)
    have x1r2: "x1 \<le> r2" using lt x2r by simp
    have base: "(G1 + Q1) / (x1 + D)\<^sup>2 \<le> (G2 + Q2) / (r2 + D)\<^sup>2"
      by (rule seed_ratio[OF x1n x1r2 Dn z qt N1 N2])
    have "(if isw then 12 * (x1 + D) else 0) \<le> (if isw then 12 * (r2 + D) else 0)"
      using x1r2 by simp
    with base loads(3,4) show ?thesis
      unfolding pressure_at_def x2r by simp
  qed
  with p1 p2 show False by simp
qed

lemma exact_width_monotone_example:
  "solve_pad 540 0 0 0 150 (9/10) (3/2) (3/4) (1/5) False
     = Some (Inr \<lparr>sol_B_opt = 2, sol_t = 1, sol_N_ck_initial = 540, sol_q_target = 135\<rparr>)
   \<and> solve_pad 540 0 1 0 150 (9/10) (3/2) (3/4) (1/5) False
     = Some (Inr \<lparr>sol_B_opt = 201/100, sol_t = 201/200, sol_N_ck_initial = 540,
                  sol_q_target = 135\<rparr>)
   \<and> (540::real) \<le> 540 \<and> (0::real) \<le> 0 \<and> (0::real) \<le> 1 \<and> (0::real) < 150 \<and> (0::real) < 9/10
   \<and> (2::real) \<le> 201/100"
proof -
  have l: "(540::real) \<le> 540" "(0::real) \<le> 0" "(0::real) \<le> 1" "(0::real) \<le> 0"
    and v: "(0::real) < 150" "(0::real) < 9/10" by simp_all
  from exact_width_monotone[OF solve_pad_example_base[of "3/4" "1/5"]
      solve_pad_example[of "3/4" "1/5"] l v]
    solve_pad_example_base[of "3/4" "1/5"] solve_pad_example[of "3/4" "1/5"]
  show ?thesis by simp
qed

text \<open>
  Rounding to a double, evaluated: a real \<open>x\<close> with \<open>2\<^sup>5\<^sup>2 \<le> |x| \<cdot> 2\<^sup>k < 2\<^sup>5\<^sup>3\<close> that lies
  within half a unit \<open>1 / 2\<^sup>k\<close> of \<open>n / 2\<^sup>k\<close> rounds to \<open>n / 2\<^sup>k\<close>; the same for a square
  root, from bounds on its argument.
\<close>

lemma round_even_near:
  assumes "\<bar>y - of_int n\<bar> < 1 / 2"
  shows "round_even y = n"
proof (cases "of_int n \<le> y")
  case True
  with assms have "\<lfloor>y\<rfloor> = n" by (intro floor_unique) simp_all
  with assms True show ?thesis by (simp add: round_even_def Let_def)
next
  case False
  with assms have "\<lfloor>y\<rfloor> = n - 1" by (intro floor_unique) simp_all
  with assms False show ?thesis by (simp add: round_even_def Let_def)
qed

lemma floor_log2_frac:
  fixes x :: real and k :: nat
  assumes lo: "2 ^ 52 / 2 ^ k \<le> \<bar>x\<bar>" and hi: "\<bar>x\<bar> < 2 ^ 53 / 2 ^ k"
  shows "\<lfloor>log 2 \<bar>x\<bar>\<rfloor> = 52 - int k"
proof (rule floor_unique)
  have "(0::real) < 2 ^ 52 / 2 ^ k" by simp
  from this lo have pos: "0 < \<bar>x\<bar>" by (rule less_le_trans)
  have p: "(2::real) powr real_of_int e = 2 powi e" for e
    using powr_real_of_int'[of 2 e] by simp
  have a: "(2::real) powi (52 - int k) = 2 ^ 52 / 2 ^ k"
    by (simp add: power_int_diff)
  have b: "(2::real) powi (52 - int k + 1) = 2 ^ 53 / 2 ^ k"
    using power_int_diff[of "2::real" 53 "int k"] by (simp add: algebra_simps)
  have "2 powr real_of_int (52 - int k) \<le> \<bar>x\<bar>" unfolding p a by (rule lo)
  then show "real_of_int (52 - int k) \<le> log 2 \<bar>x\<bar>"
    using pos le_log_iff[of 2 "\<bar>x\<bar>" "real_of_int (52 - int k)"] by simp
  have "\<bar>x\<bar> < 2 powr real_of_int (52 - int k + 1)" unfolding p b by (rule hi)
  then have "log 2 \<bar>x\<bar> < real_of_int (52 - int k + 1)"
    using pos log_less_iff[of 2 "\<bar>x\<bar>" "real_of_int (52 - int k + 1)"] by simp
  then show "log 2 \<bar>x\<bar> < real_of_int (52 - int k) + 1" by simp
qed

lemma rd_near_frac:
  fixes x :: real and k :: nat and n :: int
  assumes lo: "2 ^ 52 / 2 ^ k \<le> \<bar>x\<bar>" and hi: "\<bar>x\<bar> < 2 ^ 53 / 2 ^ k"
    and near: "\<bar>x - of_int n / 2 ^ k\<bar> < 1 / (2 * 2 ^ k)"
  shows "rd x = of_int n / 2 ^ k"
proof -
  have "(0::real) < 2 ^ 52 / 2 ^ k" by simp
  from this lo have "0 < \<bar>x\<bar>" by (rule less_le_trans)
  then have x0: "x \<noteq> 0" by simp
  have u: "(2::real) powi (\<lfloor>log 2 \<bar>x\<bar>\<rfloor> - 52) = 1 / 2 ^ k"
    unfolding floor_log2_frac[OF lo hi] by (simp add: power_int_minus_divide)
  have "\<bar>x * 2 ^ k - of_int n\<bar> = \<bar>x - of_int n / 2 ^ k\<bar> * 2 ^ k"
  proof -
    have "x * 2 ^ k - of_int n = (x - of_int n / 2 ^ k) * 2 ^ k" by (simp add: field_simps)
    then show ?thesis by (simp add: abs_mult)
  qed
  also have "\<dots> < 1 / (2 * 2 ^ k) * 2 ^ k"
    using near by (simp only: mult_less_cancel_right_pos zero_less_power zero_less_numeral)
  finally have "\<bar>x * 2 ^ k - of_int n\<bar> < 1 / 2" by simp
  then have "round_even (x * 2 ^ k) = n" by (rule round_even_near)
  with x0 u show ?thesis by (simp add: rd_def)
qed

lemma rd_sqrt_frac:
  fixes A :: real and n :: int and k :: nat
  assumes n: "2 ^ 52 < n" "n < 2 ^ 53"
    and lo: "((2 * of_int n - 1) / (2 * 2 ^ k))\<^sup>2 < A"
    and hi: "A < ((2 * of_int n + 1) / (2 * 2 ^ k))\<^sup>2"
  shows "rd (sqrt A) = of_int n / 2 ^ k"
proof (rule rd_near_frac)
  have n1: "(2::real) ^ 52 + 1 \<le> of_int n"
  proof -
    from n(1) have "(2::int) ^ 52 + 1 \<le> n" by simp
    then have "real_of_int (2 ^ 52 + 1) \<le> of_int n" by (simp only: of_int_le_iff)
    then show ?thesis by simp
  qed
  have n2: "real_of_int n \<le> 2 ^ 53 - 1"
  proof -
    from n(2) have "n \<le> 2 ^ 53 - 1" by simp
    then have "real_of_int n \<le> of_int (2 ^ 53 - 1)" by (simp only: of_int_le_iff)
    then show ?thesis by simp
  qed
  have p: "(0::real) < 2 * 2 ^ k" by simp
  have a: "(2 * of_int n - 1) / (2 * 2 ^ k) < sqrt A" using lo by (rule real_less_rsqrt)
  have "0 \<le> (2 * real_of_int n + 1) / (2 * 2 ^ k)" using n1 by simp
  then have b: "sqrt A < (2 * of_int n + 1) / (2 * 2 ^ k)" using hi by (rule real_less_lsqrt)
  have "(2::real) ^ 52 / 2 ^ k \<le> (2 * of_int n - 1) / (2 * 2 ^ k)"
    using n1 by (simp add: field_simps)
  with a have "2 ^ 52 / 2 ^ k \<le> sqrt A" by simp
  moreover have "(0::real) \<le> 2 ^ 52 / 2 ^ k" by simp
  ultimately have s0: "0 \<le> sqrt A" by (rule order_trans[rotated])
  with \<open>2 ^ 52 / 2 ^ k \<le> sqrt A\<close> show "2 ^ 52 / 2 ^ k \<le> \<bar>sqrt A\<bar>" by simp
  have "(2 * of_int n + 1) / (2 * 2 ^ k) \<le> (2::real) ^ 53 / 2 ^ k"
    using n2 by (simp add: field_simps)
  with b s0 show "\<bar>sqrt A\<bar> < 2 ^ 53 / 2 ^ k" by simp
  have "(2 * real_of_int n - 1) / (2 * 2 ^ k) = of_int n / 2 ^ k - 1 / (2 * 2 ^ k)"
    "(2 * real_of_int n + 1) / (2 * 2 ^ k) = of_int n / 2 ^ k + 1 / (2 * 2 ^ k)"
    by (simp_all add: diff_divide_distrib add_divide_distrib)
  with a b have "of_int n / 2 ^ k - 1 / (2 * 2 ^ k) < sqrt A"
    "sqrt A < of_int n / 2 ^ k + 1 / (2 * 2 ^ k)" by (simp_all only:)
  then show "\<bar>sqrt A - of_int n / 2 ^ k\<bar> < 1 / (2 * 2 ^ k)"
    unfolding abs_less_iff by (simp only: minus_diff_eq diff_less_eq less_diff_eq add.commute)
qed

lemma rd_zero: "rd 0 = 0"
  by (simp add: rd_def)

text \<open>
  The solver in double precision without surcharge and self-weight, stopping at the seed
  or one step after it, from the rounded value of each operation.
\<close>

lemma trial_step_d_base:
  assumes "rd G = G" "rd Q = Q" "rd (G + Q) = N" "rd (B * B) = sq" "sq \<noteq> 0"
    "rd (N / sq) = q" "q_allow \<noteq> 0" "rd (q / q_allow) = u" "rd (0.5 * B) = t"
  shows "trial_step_d G Q 0 0 q_allow False B
           = Inr \<lparr>tr_t = t, tr_N_ck = N, tr_q_ed = q, tr_util = u\<rparr>"
  using assms by (simp add: trial_step_d_def Let_def gamma_G_def gamma_Q_def rd_zero)

lemma solve_pad_d_no_step:
  assumes N: "rd G = G" "rd Q = Q" "rd (G + Q) = N"
    and qt: "rd (tu * q_allow) = qt" "qt \<noteq> 0"
    and A: "rd (N / qt) = A" "0 \<le> A"
    and seed: "max (rd (sqrt A)) min_width = B"
    and pass: "rd (B * B) = sq" "sq \<noteq> 0" "rd (N / sq) = q" "q_allow \<noteq> 0"
      "rd (q / q_allow) = u" "rd (0.5 * B) = t"
    and stop: "\<not> tu < u"
  shows "solve_pad_d G Q 0 0 q_allow tu min_width min_depth rounding False
           = Some (Inr \<lparr>sol_B_opt = B, sol_t = t, sol_N_ck_initial = N, sol_q_target = qt\<rparr>)"
proof -
  have r: "refine_width_d G Q 0 0 q_allow tu False B = Some (Inr (B, t))"
    by (subst refine_width_d.simps)
       (simp add: trial_step_d_base[OF N pass] stop)
  show ?thesis
    using A(2) qt(2)
    by (simp add: solve_pad_d_def Let_def gamma_G_def gamma_Q_def N qt A seed r not_less)
qed

lemma solve_pad_d_one_step:
  assumes N: "rd G = G" "rd Q = Q" "rd (G + Q) = N"
    and qt: "rd (tu * q_allow) = qt" "qt \<noteq> 0"
    and A: "rd (N / qt) = A" "0 \<le> A"
    and seed: "max (rd (sqrt A)) min_width = B"
    and pass: "rd (B * B) = sq" "sq \<noteq> 0" "rd (N / sq) = q" "q_allow \<noteq> 0"
      "rd (q / q_allow) = u" "rd (0.5 * B) = t"
    and more: "tu < u"
    and step: "rd (1 / 100) = h" "rd (B + h) = B'"
    and pass': "rd (B' * B') = sq'" "sq' \<noteq> 0" "rd (N / sq') = q'" "q_allow \<noteq> 0"
      "rd (q' / q_allow) = u'" "rd (0.5 * B') = t'"
    and stop: "\<not> tu < u'"
  shows "solve_pad_d G Q 0 0 q_allow tu min_width min_depth rounding False
           = Some (Inr \<lparr>sol_B_opt = B', sol_t = t', sol_N_ck_initial = N, sol_q_target = qt\<rparr>)"
proof -
  have r': "refine_width_d G Q 0 0 q_allow tu False B' = Some (Inr (B', t'))"
    by (subst refine_width_d.simps)
       (simp add: trial_step_d_base[OF N pass'] stop)
  have r: "refine_width_d G Q 0 0 q_allow tu False B = Some (Inr (B', t'))"
    by (subst refine_width_d.simps)
       (simp add: trial_step_d_base[OF N pass] more B_REFINE_STEP_def step r')
  show ?thesis
    using A(2) qt(2)
    by (simp add: solve_pad_d_def Let_def gamma_G_def gamma_Q_def N qt A seed r not_less)
qed

text \<open>
  The rounded values of the operations in the two runs evaluated below: \<open>G = 708\<close> and
  \<open>G = 709\<close> with \<open>Q = 500\<close>, \<open>q_allow = 150\<close>, the target \<open>0.9\<close> and the step \<open>0.01\<close> as doubles.
\<close>

lemma d_tu: "rd (9 / 10) = (8106479329266893 / 9007199254740992 :: real)"
  using rd_near_frac[of 53 "9 / 10" 8106479329266893] by simp

lemma d_step: "rd (1 / 100) = (5764607523034235 / 576460752303423488 :: real)"
  using rd_near_frac[of 59 "1 / 100" 5764607523034235] by simp

lemma d_qt: "rd (8106479329266893 / 9007199254740992 * 150) = (135 :: real)"
  using rd_near_frac[of 45 "8106479329266893 / 9007199254740992 * 150" 4749890231992320] by simp

lemma d_G_a: "rd (708) = (708 :: real)"
  using rd_near_frac[of 43 "708" 6227633859723264] by simp

lemma d_Q: "rd (500) = (500 :: real)"
  using rd_near_frac[of 44 "500" 8796093022208000] by simp

lemma d_N_a: "rd (708 + 500) = (1208 :: real)"
  using rd_near_frac[of 42 "708 + 500" 5312840185413632] by simp

lemma d_A_a: "rd (1208 / 135) = (5037359583206999 / 562949953421312 :: real)"
  using rd_near_frac[of 49 "1208 / 135" 5037359583206999] by simp

lemma d_seed_a: "rd (sqrt (5037359583206999 / 562949953421312)) = (6735911332828281 / 2251799813685248 :: real)"
  using rd_sqrt_frac[where n = 6735911332828281 and A = "5037359583206999 / 562949953421312" and k = 51]
  by (simp add: power2_eq_square)

lemma d_next_a: "rd (6735911332828281 / 2251799813685248 + 5764607523034235 / 576460752303423488) = (6758429330965133 / 2251799813685248 :: real)"
  using rd_near_frac[of 51 "6735911332828281 / 2251799813685248 + 5764607523034235 / 576460752303423488" 6758429330965133] by simp

lemma d_sq_a0: "rd (6735911332828281 / 2251799813685248 * (6735911332828281 / 2251799813685248)) = (5037359583206998 / 562949953421312 :: real)"
  using rd_near_frac[of 49 "6735911332828281 / 2251799813685248 * (6735911332828281 / 2251799813685248)" 5037359583206998] by simp

lemma d_q_a0: "rd (1208 / (5037359583206998 / 562949953421312)) = (4749890231992321 / 35184372088832 :: real)"
  using rd_near_frac[of 45 "1208 / (5037359583206998 / 562949953421312)" 4749890231992321] by simp

lemma d_u_a0: "rd (4749890231992321 / 35184372088832 / 150) = (8106479329266895 / 9007199254740992 :: real)"
  using rd_near_frac[of 53 "4749890231992321 / 35184372088832 / 150" 8106479329266895] by simp

lemma d_t_a0: "rd (0.5 * (6735911332828281 / 2251799813685248)) = (6735911332828281 / 4503599627370496 :: real)"
  using rd_near_frac[of 52 "0.5 * (6735911332828281 / 2251799813685248)" 6735911332828281] by simp

lemma d_sq_a1: "rd (6758429330965133 / 2251799813685248 * (6758429330965133 / 2251799813685248)) = (5071095434866481 / 562949953421312 :: real)"
  using rd_near_frac[of 49 "6758429330965133 / 2251799813685248 * (6758429330965133 / 2251799813685248)" 5071095434866481] by simp

lemma d_q_a1: "rd (1208 / (5071095434866481 / 562949953421312)) = (4718291222602047 / 35184372088832 :: real)"
  using rd_near_frac[of 45 "1208 / (5071095434866481 / 562949953421312)" 4718291222602047] by simp

lemma d_u_a1: "rd (4718291222602047 / 35184372088832 / 150) = (8052550353240827 / 9007199254740992 :: real)"
  using rd_near_frac[of 53 "4718291222602047 / 35184372088832 / 150" 8052550353240827] by simp

lemma d_t_a1: "rd (0.5 * (6758429330965133 / 2251799813685248)) = (6758429330965133 / 4503599627370496 :: real)"
  using rd_near_frac[of 52 "0.5 * (6758429330965133 / 2251799813685248)" 6758429330965133] by simp

lemma d_G_b: "rd (709) = (709 :: real)"
  using rd_near_frac[of 43 "709" 6236429952745472] by simp

lemma d_N_b: "rd (709 + 500) = (1209 :: real)"
  using rd_near_frac[of 42 "709 + 500" 5317238231924736] by simp

lemma d_A_b: "rd (1209 / 135) = (5041529582861972 / 562949953421312 :: real)"
  using rd_near_frac[of 49 "1209 / 135" 5041529582861972] by simp

lemma d_seed_b: "rd (sqrt (5041529582861972 / 562949953421312)) = (6738698798841585 / 2251799813685248 :: real)"
  using rd_sqrt_frac[where n = 6738698798841585 and A = "5041529582861972 / 562949953421312" and k = 51]
  by (simp add: power2_eq_square)

lemma d_sq_b0: "rd (6738698798841585 / 2251799813685248 * (6738698798841585 / 2251799813685248)) = (5041529582861972 / 562949953421312 :: real)"
  using rd_near_frac[of 49 "6738698798841585 / 2251799813685248 * (6738698798841585 / 2251799813685248)" 5041529582861972] by simp

lemma d_q_b0: "rd (1209 / (5041529582861972 / 562949953421312)) = (135 :: real)"
  using rd_near_frac[of 45 "1209 / (5041529582861972 / 562949953421312)" 4749890231992320] by simp

lemma d_u_b0: "rd (135 / 150) = (8106479329266893 / 9007199254740992 :: real)"
  using rd_near_frac[of 53 "135 / 150" 8106479329266893] by simp

lemma d_t_b0: "rd (0.5 * (6738698798841585 / 2251799813685248)) = (6738698798841585 / 4503599627370496 :: real)"
  using rd_near_frac[of 52 "0.5 * (6738698798841585 / 2251799813685248)" 6738698798841585] by simp

subsection \<open>The claims\<close>

text \<open>
  C9. The parameters \<^verbatim>\<open>min_depth\<close> and \<^verbatim>\<open>rounding\<close> of \<^verbatim>\<open>solve_pad\<close> have no
  influence on its result: two calls that differ only in them return the same value
  (the same \<open>B_opt\<close>, \<open>t\<close>, \<open>N_ck_initial\<close> and \<open>q_target\<close>, the same error, or both
  never return). No minimum depth is enforced in the continuous solve.
\<close>

theorem solve_pad_ignores_min_depth_and_rounding:
  "solve_pad G Q Sur_G Sur_Q q_allow target_utilisation min_width min_depth rounding isw
     = solve_pad G Q Sur_G Sur_Q q_allow target_utilisation min_width min_depth' rounding' isw"
  by (simp add: solve_pad_def)

text \<open>
  C4. Whenever \<^verbatim>\<open>solve_pad\<close> returns a converged geometry, the utilisation computed by
  the loop body at the returned width \<open>B_opt\<close> is at most the target utilisation: the
  convergence bound holds with a tolerance of zero.
\<close>

theorem converged_within_target:
  assumes "solve_pad G Q Sur_G Sur_Q q_allow tu min_width min_depth rounding isw = Some (Inr s)"
  shows "\<exists>tr. trial_step G Q Sur_G Sur_Q q_allow isw (sol_B_opt s) = Inr tr \<and> tr_util tr \<le> tu"
proof -
  from solve_pad_Inr[OF assms]
  have "refine_width G Q Sur_G Sur_Q q_allow tu isw
          (max (sqrt ((G + Q) / (tu * q_allow))) min_width) = Some (Inr (sol_B_opt s, sol_t s))"
    by simp
  from refine_width_exit[OF this] show ?thesis
    unfolding loop_exit_def by blast
qed

theorem converged_within_target_witness:
  "solve_pad 540 0 1 0 150 (9/10) (3/2) (3/4) (1/5) False
     = Some (Inr \<lparr>sol_B_opt = 201/100, sol_t = 201/200, sol_N_ck_initial = 540,
                  sol_q_target = 135\<rparr>)
   \<and> (\<exists>tr. trial_step 540 0 1 0 150 False (201/100) = Inr tr \<and> tr_util tr \<le> 9/10)"
  using converged_within_target[OF solve_pad_example[of "3/4" "1/5"]] solve_pad_example[of "3/4" "1/5"]
  by simp

text \<open>
  C2. Whenever the solver converges, the returned depth is exactly half the returned
  width, \<open>t = B_opt / 2\<close>, and whenever the final check then produces results, the
  rounded depth is exactly half the rounded width, \<open>t_round = B_final / 2\<close>.
\<close>

theorem depth_is_half_width:
  assumes "solve_pad G Q Sur_G Sur_Q q_allow tu min_width min_depth rounding isw = Some (Inr s)"
  shows "sol_t s = sol_B_opt s / 2 \<and>
         (\<forall>res. final_design G Q Sur_G Sur_Q q_allow rounding isw s = Inr res
                 \<longrightarrow> res_t_round res = res_B_final res / 2)"
proof
  from solve_pad_Inr[OF assms]
  have "refine_width G Q Sur_G Sur_Q q_allow tu isw
          (max (sqrt ((G + Q) / (tu * q_allow))) min_width) = Some (Inr (sol_B_opt s, sol_t s))"
    by simp
  from refine_width_exit[OF this] obtain tr where
    "trial_step G Q Sur_G Sur_Q q_allow isw (sol_B_opt s) = Inr tr" "tr_t tr = sol_t s"
    unfolding loop_exit_def by blast
  with trial_step_Inr[of G Q Sur_G Sur_Q q_allow isw "sol_B_opt s" tr]
  show "sol_t s = sol_B_opt s / 2" by simp
next
  show "\<forall>res. final_design G Q Sur_G Sur_Q q_allow rounding isw s = Inr res
                 \<longrightarrow> res_t_round res = res_B_final res / 2"
    by (auto simp add: final_design_def Let_def split: sum.splits if_splits)
qed

theorem depth_is_half_width_witness:
  "solve_pad 540 0 1 0 150 (9/10) (3/2) (3/4) (1/5) False
     = Some (Inr \<lparr>sol_B_opt = 201/100, sol_t = 201/200, sol_N_ck_initial = 540,
                  sol_q_target = 135\<rparr>)
   \<and> final_design 540 0 1 0 150 (1/5) False
        \<lparr>sol_B_opt = 201/100, sol_t = 201/200, sol_N_ck_initial = 540, sol_q_target = 135\<rparr>
       = Inr \<lparr>res_B_final = 11/5, res_t_round = 11/10, res_q_ed = 13621/121,
            res_utilisation = 13621/18150, res_N_ck = 13621/25, res_volume = 1331/250\<rparr>
   \<and> (201/200 :: real) = (201/100) / 2 \<and> (11/10 :: real) = (11/5) / 2"
  using depth_is_half_width[OF solve_pad_example[of "3/4" "1/5"]]
        solve_pad_example[of "3/4" "1/5"] final_design_example
  by simp

text \<open>
  C1. The claim is that \<^verbatim>\<open>solve_pad\<close> always returns, with a geometry or with an
  infeasibility signal, because the search is bounded. The loop of the source has no
  bound: on the valid input \<open>G = 750\<close>, \<open>Q = 500\<close>, no surcharge, \<open>q_allow = 25\<close>,
  target \<open>0.5\<close>, minimum width \<open>1.5\<close>, self-weight included, the call never returns.
\<close>

theorem solve_pad_never_returns:
  "solve_pad 750 500 0 0 25 (1/2) (3/2) (3/4) (1/5) True = None"
proof -
  have "sqrt 100 = 10" by (rule real_sqrt_unique) simp_all
  then show ?thesis
    by (simp add: solve_pad_def Let_def gamma_G_def gamma_Q_def refine_width_diverges)
qed



text \<open>
  C5. For a width \<open>B > 0\<close> (and an allowable pressure other than zero, without which the
  pass raises on the utilisation), one pass of the loop body sets \<open>t = B / 2\<close> and computes
  the design load and the bearing pressure of the specification's formulas; the final
  check computes the same formulas at the rounded width and depth.
\<close>

theorem load_accumulation_formulas:
  assumes "0 < B" "q_allow \<noteq> 0"
  shows "(\<exists>tr. trial_step G Q Sur_G Sur_Q q_allow isw B = Inr tr \<and> tr_t tr = B / 2 \<and>
               tr_N_ck tr = spec_designLoad G Q Sur_G Sur_Q isw B (B / 2) \<and>
               tr_q_ed tr = spec_bearingPressure G Q Sur_G Sur_Q isw B (B / 2)) \<and>
         (\<forall>res. final_design G Q Sur_G Sur_Q q_allow rounding isw s = Inr res \<longrightarrow>
               res_N_ck res = spec_designLoad G Q Sur_G Sur_Q isw (res_B_final res) (res_t_round res) \<and>
               res_q_ed res = spec_bearingPressure G Q Sur_G Sur_Q isw (res_B_final res) (res_t_round res))"
proof
  obtain tr where tr: "trial_step G Q Sur_G Sur_Q q_allow isw B = Inr tr"
    using assms by (auto simp add: trial_step_def Let_def)
  from trial_step_Inr[OF tr]
  have "tr_t tr = B / 2 \<and> tr_N_ck tr = spec_designLoad G Q Sur_G Sur_Q isw B (B / 2) \<and>
        tr_q_ed tr = spec_bearingPressure G Q Sur_G Sur_Q isw B (B / 2)"
    by (simp add: spec_bearingPressure_def spec_designLoad_def spec_selfWeight_def)
  with tr show "\<exists>tr. trial_step G Q Sur_G Sur_Q q_allow isw B = Inr tr \<and> tr_t tr = B / 2 \<and>
               tr_N_ck tr = spec_designLoad G Q Sur_G Sur_Q isw B (B / 2) \<and>
               tr_q_ed tr = spec_bearingPressure G Q Sur_G Sur_Q isw B (B / 2)" by blast
next
  show "\<forall>res. final_design G Q Sur_G Sur_Q q_allow rounding isw s = Inr res \<longrightarrow>
               res_N_ck res = spec_designLoad G Q Sur_G Sur_Q isw (res_B_final res) (res_t_round res) \<and>
               res_q_ed res = spec_bearingPressure G Q Sur_G Sur_Q isw (res_B_final res) (res_t_round res)"
  proof (intro allI impI)
    fix res assume "final_design G Q Sur_G Sur_Q q_allow rounding isw s = Inr res"
    from final_design_Inr[OF this]
    have f: "res_t_round res = res_B_final res / 2"
      "res_N_ck res = (G + (if isw then (res_B_final res)\<^sup>2 * (res_B_final res / 2) * 24 else 0)
                           + Sur_G * (res_B_final res)\<^sup>2) + (Q + Sur_Q * (res_B_final res)\<^sup>2)"
      "res_q_ed res = res_N_ck res / (res_B_final res)\<^sup>2"
      by blast+
    have N: "res_N_ck res = spec_designLoad G Q Sur_G Sur_Q isw (res_B_final res) (res_B_final res / 2)"
      unfolding f(2) by (simp add: spec_designLoad_def spec_selfWeight_def)
    have "res_q_ed res = spec_bearingPressure G Q Sur_G Sur_Q isw (res_B_final res) (res_B_final res / 2)"
      unfolding f(3) N by (simp add: spec_bearingPressure_def)
    with N show "res_N_ck res = spec_designLoad G Q Sur_G Sur_Q isw (res_B_final res) (res_t_round res) \<and>
          res_q_ed res = spec_bearingPressure G Q Sur_G Sur_Q isw (res_B_final res) (res_t_round res)"
      unfolding f(1) by blast
  qed
qed

theorem load_accumulation_formulas_witness:
  "(0::real) < 2 \<and> (150::real) \<noteq> 0 \<and>
   (\<exists>tr. trial_step 540 0 1 0 150 True 2 = Inr tr \<and> tr_t tr = 1 \<and> tr_N_ck tr = 640
         \<and> tr_q_ed tr = 160) \<and>
   final_design 540 0 1 0 150 (1/5) False
        \<lparr>sol_B_opt = 201/100, sol_t = 201/200, sol_N_ck_initial = 540, sol_q_target = 135\<rparr>
       = Inr \<lparr>res_B_final = 11/5, res_t_round = 11/10, res_q_ed = 13621/121,
            res_utilisation = 13621/18150, res_N_ck = 13621/25, res_volume = 1331/250\<rparr>"
proof -
  have a: "(0::real) < 2" "(150::real) \<noteq> 0" by simp_all
  from load_accumulation_formulas[OF a, of 540 0 1 0 True] final_design_example
  show ?thesis
    by (simp add: spec_bearingPressure_def spec_designLoad_def spec_selfWeight_def)
qed

text \<open>
  C10. Two calculations with the same loads and the same common inputs have the same
  outcome (the same width, depth, load, pressure, utilisation and volume, or the same
  error, or neither returns), whatever the identifier of the pad and whatever results it
  held before; and running the calculation again over a list of pads that it has just
  computed gives that list again. Nothing but the arguments decides the outcome.
\<close>

theorem sizing_has_no_hidden_state:
  "(pad_G p = pad_G q \<and> pad_Q p = pad_Q q \<and> pad_Sur_G p = pad_Sur_G q \<and> pad_Sur_Q p = pad_Sur_Q q
      \<longrightarrow> map_option (map_sum id pad_res) (design_pad c p)
            = map_option (map_sum id pad_res) (design_pad c q))
   \<and> (design_pads c ps = Some (Inr ps') \<longrightarrow> design_pads c ps' = Some (Inr ps'))"
  using design_pad_reads_loads[of p q c] design_pads_again[of c ps ps'] by blast

theorem sizing_has_no_hidden_state_witness:
  "design_pad \<lparr>in_q_allow = 150, in_rounding = 1/5, in_target_utilisation = 9/10,
               in_min_width = 3/2, in_min_depth = 3/4, in_include_self_weight = False\<rparr>
              \<lparr>pad_id = 1, pad_G = 540, pad_Q = 0, pad_Sur_G = 1, pad_Sur_Q = 0, pad_res = None\<rparr>
     = Some (Inr \<lparr>pad_id = 1, pad_G = 540, pad_Q = 0, pad_Sur_G = 1, pad_Sur_Q = 0,
                  pad_res = Some \<lparr>res_B_final = 11/5, res_t_round = 11/10, res_q_ed = 13621/121,
                     res_utilisation = 13621/18150, res_N_ck = 13621/25,
                     res_volume = 1331/250\<rparr>\<rparr>)
   \<and> map_option (map_sum id pad_res)
        (design_pad \<lparr>in_q_allow = 150, in_rounding = 1/5, in_target_utilisation = 9/10,
               in_min_width = 3/2, in_min_depth = 3/4, in_include_self_weight = False\<rparr>
              \<lparr>pad_id = 2, pad_G = 540, pad_Q = 0, pad_Sur_G = 1, pad_Sur_Q = 0,
               pad_res = Some \<lparr>res_B_final = 1, res_t_round = 1, res_q_ed = 1,
                     res_utilisation = 1, res_N_ck = 1, res_volume = 1\<rparr>\<rparr>)
       = Some (Inr (Some \<lparr>res_B_final = 11/5, res_t_round = 11/10, res_q_ed = 13621/121,
                     res_utilisation = 13621/18150, res_N_ck = 13621/25,
                     res_volume = 1331/250\<rparr>))
   \<and> design_pads \<lparr>in_q_allow = 150, in_rounding = 1/5, in_target_utilisation = 9/10,
               in_min_width = 3/2, in_min_depth = 3/4, in_include_self_weight = False\<rparr>
        [\<lparr>pad_id = 1, pad_G = 540, pad_Q = 0, pad_Sur_G = 1, pad_Sur_Q = 0,
                  pad_res = Some \<lparr>res_B_final = 11/5, res_t_round = 11/10, res_q_ed = 13621/121,
                     res_utilisation = 13621/18150, res_N_ck = 13621/25,
                     res_volume = 1331/250\<rparr>\<rparr>]
       = Some (Inr [\<lparr>pad_id = 1, pad_G = 540, pad_Q = 0, pad_Sur_G = 1, pad_Sur_Q = 0,
                  pad_res = Some \<lparr>res_B_final = 11/5, res_t_round = 11/10, res_q_ed = 13621/121,
                     res_utilisation = 13621/18150, res_N_ck = 13621/25,
                     res_volume = 1331/250\<rparr>\<rparr>])"
proof -
  let ?c = "\<lparr>in_q_allow = 150, in_rounding = 1/5, in_target_utilisation = 9/10,
               in_min_width = 3/2, in_min_depth = 3/4, in_include_self_weight = False\<rparr>"
  let ?p = "\<lparr>pad_id = 1, pad_G = 540, pad_Q = 0, pad_Sur_G = 1, pad_Sur_Q = 0, pad_res = None\<rparr>"
  let ?q = "\<lparr>pad_id = 2, pad_G = 540, pad_Q = 0, pad_Sur_G = 1, pad_Sur_Q = 0,
               pad_res = Some \<lparr>res_B_final = 1, res_t_round = 1, res_q_ed = 1,
                     res_utilisation = 1, res_N_ck = 1, res_volume = 1\<rparr>\<rparr>"
  have one: "design_pads ?c [?p] = Some (Inr [\<lparr>pad_id = 1, pad_G = 540, pad_Q = 0, pad_Sur_G = 1,
                  pad_Sur_Q = 0,
                  pad_res = Some \<lparr>res_B_final = 11/5, res_t_round = 11/10, res_q_ed = 13621/121,
                     res_utilisation = 13621/18150, res_N_ck = 13621/25,
                     res_volume = 1331/250\<rparr>\<rparr>])"
    by (simp add: design_pad_example)
  let ?p' = "\<lparr>pad_id = 1, pad_G = 540, pad_Q = 0, pad_Sur_G = 1, pad_Sur_Q = 0,
                  pad_res = Some \<lparr>res_B_final = 11/5, res_t_round = 11/10, res_q_ed = 13621/121,
                     res_utilisation = 13621/18150, res_N_ck = 13621/25,
                     res_volume = 1331/250\<rparr>\<rparr>"
  note t = sizing_has_no_hidden_state[where p = ?p and q = ?q and c = ?c and ps = "[?p]"
      and ps' = "[?p']"]
  have a: "design_pad ?c ?p = Some (Inr ?p')" by (rule design_pad_example)
  from t one have b: "design_pads ?c [?p'] = Some (Inr [?p'])" by blast
  from t a have c: "map_option (map_sum id pad_res) (design_pad ?c ?q) = Some (Inr (Some
      \<lparr>res_B_final = 11/5, res_t_round = 11/10, res_q_ed = 13621/121,
                     res_utilisation = 13621/18150, res_N_ck = 13621/25,
                     res_volume = 1331/250\<rparr>))" by simp
  from a b c show ?thesis by blast
qed

text \<open>
  C7, as amended. The code has no check of its constraints and no error of its own for
  them. When \<open>q_allow\<close> or \<open>target_utilisation\<close> is zero, \<^verbatim>\<open>solve_pad\<close> raises
  \<^verbatim>\<open>ZeroDivisionError\<close> on \<open>N_ck_initial / q_target\<close>, before the loop, whatever the loads.
  When \<open>rounding\<close> is zero, \<^verbatim>\<open>round_up\<close> raises \<^verbatim>\<open>ZeroDivisionError\<close>, after the
  solve. So with any of the three at zero the calculation of a pad never yields results.
\<close>

theorem zero_constraints_raise:
  "(q_allow = 0 \<or> tu = 0 \<longrightarrow>
      solve_pad G Q Sur_G Sur_Q q_allow tu min_width min_depth rounding isw
        = Some (Inl ZeroDivisionError))
   \<and> final_design G Q Sur_G Sur_Q q_allow 0 isw s = Inl ZeroDivisionError
   \<and> (in_q_allow c = 0 \<or> in_target_utilisation c = 0 \<or> in_rounding c = 0 \<longrightarrow>
        (\<forall>p'. design_pad c p \<noteq> Some (Inr p')))"
  by (auto simp add: solve_pad_def design_pad_def final_design_def round_up_def Let_def
           split: option.splits sum.splits)

theorem zero_constraints_raise_witness:
  "solve_pad 540 0 1 0 0 (9/10) (3/2) (3/4) (1/5) False = Some (Inl ZeroDivisionError)
   \<and> final_design 540 0 1 0 150 0 False
        \<lparr>sol_B_opt = 201/100, sol_t = 201/200, sol_N_ck_initial = 540, sol_q_target = 135\<rparr>
       = Inl ZeroDivisionError
   \<and> design_pad \<lparr>in_q_allow = 150, in_rounding = 0, in_target_utilisation = 9/10,
               in_min_width = 3/2, in_min_depth = 3/4, in_include_self_weight = False\<rparr>
              \<lparr>pad_id = 1, pad_G = 540, pad_Q = 0, pad_Sur_G = 1, pad_Sur_Q = 0, pad_res = None\<rparr>
       = Some (Inl ZeroDivisionError)"
proof -
  have "design_pad \<lparr>in_q_allow = 150, in_rounding = 0, in_target_utilisation = 9/10,
               in_min_width = 3/2, in_min_depth = 3/4, in_include_self_weight = False\<rparr>
              \<lparr>pad_id = 1, pad_G = 540, pad_Q = 0, pad_Sur_G = 1, pad_Sur_Q = 0, pad_res = None\<rparr>
       = Some (Inl ZeroDivisionError)"
    using zero_constraints_raise[of 150 "9/10" 540 0 1 0 "3/2" "3/4" 0 False
        "\<lparr>sol_B_opt = 201/100, sol_t = 201/200, sol_N_ck_initial = 540, sol_q_target = 135\<rparr>"
        "\<lparr>in_q_allow = 150, in_rounding = 0, in_target_utilisation = 9/10,
               in_min_width = 3/2, in_min_depth = 3/4, in_include_self_weight = False\<rparr>"
        "\<lparr>pad_id = 1, pad_G = 540, pad_Q = 0, pad_Sur_G = 1, pad_Sur_Q = 0, pad_res = None\<rparr>"]
    by (simp add: design_pad_def solve_pad_example)
  with zero_constraints_raise[of 0 "9/10" 540 0 1 0 "3/2" "3/4" "1/5" False
        "\<lparr>sol_B_opt = 201/100, sol_t = 201/200, sol_N_ck_initial = 540, sol_q_target = 135\<rparr>"]
       zero_constraints_raise[of 150 "9/10" 540 0 1 0 "3/2" "3/4" 0 False
        "\<lparr>sol_B_opt = 201/100, sol_t = 201/200, sol_N_ck_initial = 540, sol_q_target = 135\<rparr>"]
  show ?thesis by simp
qed

text \<open>
  The claim as first stated, that every input with \<open>q_allow \<le> 0\<close>,
  \<open>target_utilisation \<le> 0\<close> or \<open>rounding \<le> 0\<close> is rejected before solving, fails for
  negative values: with a rounding increment of \<open>-0.2\<close> the pad is solved and rounded
  (to a width below the converged one), and with \<open>q_allow = -150\<close> and no load the pad
  is solved and rounded as well.
\<close>

theorem invalid_constraints_not_rejected:
  "(- (1/5) :: real) \<le> 0 \<and>
   design_pad \<lparr>in_q_allow = 150, in_rounding = - (1/5), in_target_utilisation = 9/10,
               in_min_width = 3/2, in_min_depth = 3/4, in_include_self_weight = False\<rparr>
              \<lparr>pad_id = 1, pad_G = 540, pad_Q = 0, pad_Sur_G = 1, pad_Sur_Q = 0, pad_res = None\<rparr>
     = Some (Inr \<lparr>pad_id = 1, pad_G = 540, pad_Q = 0, pad_Sur_G = 1, pad_Sur_Q = 0,
                  pad_res = Some \<lparr>res_B_final = 2, res_t_round = 1, res_q_ed = 136,
                     res_utilisation = 68/75, res_N_ck = 544, res_volume = 4\<rparr>\<rparr>)
   \<and> (- 150 :: real) \<le> 0 \<and>
   design_pad \<lparr>in_q_allow = - 150, in_rounding = 1/5, in_target_utilisation = 9/10,
               in_min_width = 3/2, in_min_depth = 3/4, in_include_self_weight = False\<rparr>
              \<lparr>pad_id = 1, pad_G = 0, pad_Q = 0, pad_Sur_G = 0, pad_Sur_Q = 0, pad_res = None\<rparr>
     = Some (Inr \<lparr>pad_id = 1, pad_G = 0, pad_Q = 0, pad_Sur_G = 0, pad_Sur_Q = 0,
                  pad_res = Some \<lparr>res_B_final = 8/5, res_t_round = 4/5, res_q_ed = 0,
                     res_utilisation = 0, res_N_ck = 0, res_volume = 256/125\<rparr>\<rparr>)"
proof -
  have c1: "\<lceil>- ((201::real) / 20)\<rceil> = - 10" by (simp add: ceiling_eq_iff)
  have f1: "final_design 540 0 1 0 150 (- (1/5)) False
      \<lparr>sol_B_opt = 201/100, sol_t = 201/200, sol_N_ck_initial = 540, sol_q_target = 135\<rparr>
     = Inr \<lparr>res_B_final = 2, res_t_round = 1, res_q_ed = 136,
                     res_utilisation = 68/75, res_N_ck = 544, res_volume = 4\<rparr>"
    by (simp add: final_design_def round_up_def c1 Let_def gamma_G_def gamma_Q_def)
  have r: "refine_width 0 0 0 0 (- 150) (9/10) False (3/2) = Some (Inr (3/2, 3/4))"
    by (subst refine_width.simps) (simp add: trial_step_def Let_def gamma_G_def gamma_Q_def)
  have s2: "solve_pad 0 0 0 0 (- 150) (9/10) (3/2) (3/4) (1/5) False
     = Some (Inr \<lparr>sol_B_opt = 3/2, sol_t = 3/4, sol_N_ck_initial = 0, sol_q_target = - 135\<rparr>)"
    by (simp add: solve_pad_def Let_def gamma_G_def gamma_Q_def r)
  have c2: "\<lceil>(15::real) / 2\<rceil> = 8" by (simp add: ceiling_eq_iff)
  have f2: "final_design 0 0 0 0 (- 150) (1/5) False
      \<lparr>sol_B_opt = 3/2, sol_t = 3/4, sol_N_ck_initial = 0, sol_q_target = - 135\<rparr>
     = Inr \<lparr>res_B_final = 8/5, res_t_round = 4/5, res_q_ed = 0,
                     res_utilisation = 0, res_N_ck = 0, res_volume = 256/125\<rparr>"
    by (simp add: final_design_def round_up_def c2 Let_def gamma_G_def gamma_Q_def power2_eq_square)
  show ?thesis
    by (simp add: design_pad_def solve_pad_example f1 s2 f2)
qed




text \<open>
  C8. The claim is that a larger load never gives a smaller converged width. The program
  breaks it: in double precision, with \<open>Q = 500\<close>, \<open>q_allow = 150\<close>, target \<open>0.9\<close>, minimum
  width \<open>1.5\<close>, no surcharge and no self-weight, the load \<open>G = 708\<close> converges at
  \<open>3.0013455414157932\<close> and the larger load \<open>G = 709\<close> at \<open>2.9925834249951255\<close>. At
  \<open>G = 708\<close> the utilisation at the seed rounds to \<open>0.9000000000000002\<close>, above the target
  \<open>0.9\<close>, and the loop takes a step of \<open>0.01\<close>; at \<open>G = 709\<close> it rounds to the target
  itself and the seed is returned.
\<close>

theorem heavier_load_smaller_width:
  "solve_pad_d 708 500 0 0 150 (rd (9 / 10)) (3 / 2) (3 / 4) (rd (1 / 5)) False
     = Some (Inr \<lparr>sol_B_opt = 6758429330965133 / 2251799813685248, sol_t = 6758429330965133 / 4503599627370496, sol_N_ck_initial = 1208, sol_q_target = 135\<rparr>)
   \<and> solve_pad_d 709 500 0 0 150 (rd (9 / 10)) (3 / 2) (3 / 4) (rd (1 / 5)) False
     = Some (Inr \<lparr>sol_B_opt = 6738698798841585 / 2251799813685248, sol_t = 6738698798841585 / 4503599627370496, sol_N_ck_initial = 1209, sol_q_target = 135\<rparr>)
   \<and> (708 :: real) < 709
   \<and> (6738698798841585 / 2251799813685248 :: real) < 6758429330965133 / 2251799813685248"
proof -
  have qt0: "(135 :: real) \<noteq> 0" and qa0: "(150 :: real) \<noteq> 0" by simp_all
  have Aa: "(0 :: real) \<le> 5037359583206999 / 562949953421312" and Ab: "(0 :: real) \<le> 5041529582861972 / 562949953421312" by simp_all
  have seed_a: "max (rd (sqrt (5037359583206999 / 562949953421312))) (3 / 2) = (6735911332828281 / 2251799813685248 :: real)"
    unfolding d_seed_a by simp
  have seed_b: "max (rd (sqrt (5041529582861972 / 562949953421312))) (3 / 2) = (6738698798841585 / 2251799813685248 :: real)"
    unfolding d_seed_b by simp
  have sqa0: "(5037359583206998 / 562949953421312 :: real) \<noteq> 0" and sqa1: "(5071095434866481 / 562949953421312 :: real) \<noteq> 0"
    and sqb0: "(5041529582861972 / 562949953421312 :: real) \<noteq> 0" by simp_all
  have more_a: "(8106479329266893 / 9007199254740992 :: real) < 8106479329266895 / 9007199254740992" by simp
  have stop_a: "\<not> (8106479329266893 / 9007199254740992 :: real) < 8052550353240827 / 9007199254740992" by simp
  have stop_b: "\<not> (8106479329266893 / 9007199254740992 :: real) < 8106479329266893 / 9007199254740992" by simp
  have a: "solve_pad_d 708 500 0 0 150 (8106479329266893 / 9007199254740992) (3 / 2) (3 / 4) (rd (1 / 5)) False
     = Some (Inr \<lparr>sol_B_opt = 6758429330965133 / 2251799813685248, sol_t = 6758429330965133 / 4503599627370496, sol_N_ck_initial = 1208, sol_q_target = 135\<rparr>)"
    by (rule solve_pad_d_one_step[OF d_G_a d_Q d_N_a d_qt qt0 d_A_a Aa seed_a
          d_sq_a0 sqa0 d_q_a0 qa0 d_u_a0 d_t_a0 more_a d_step d_next_a
          d_sq_a1 sqa1 d_q_a1 qa0 d_u_a1 d_t_a1 stop_a])
  have b: "solve_pad_d 709 500 0 0 150 (8106479329266893 / 9007199254740992) (3 / 2) (3 / 4) (rd (1 / 5)) False
     = Some (Inr \<lparr>sol_B_opt = 6738698798841585 / 2251799813685248, sol_t = 6738698798841585 / 4503599627370496, sol_N_ck_initial = 1209, sol_q_target = 135\<rparr>)"
    by (rule solve_pad_d_no_step[OF d_G_b d_Q d_N_b d_qt qt0 d_A_b Ab seed_b
          d_sq_b0 sqb0 d_q_b0 qa0 d_u_b0 d_t_b0 stop_b])
  have c: "(708 :: real) < 709" "(6738698798841585 / 2251799813685248 :: real) < 6758429330965133 / 2251799813685248" by simp_all
  from a b c show ?thesis unfolding d_tu by blast
qed

end
